theory Spec2Isabelle
  imports Main "HOL-Library.Multiset"
begin

section \<open>JavaScript strings and arrays\<close>

text \<open>
  A string is a list of characters. A \<^typ>\<open>char\<close> stands for the UTF-16 code unit of
  the same number, so the model covers the strings whose code units are below 256
  (ASCII and Latin-1).
\<close>

definition nl :: char where
  "nl = CHR 0x0A"

text \<open>\<^verbatim>\<open>String.prototype.trim\<close> strips WhiteSpace and LineTerminator code points: in
  the range of \<^typ>\<open>char\<close> these are TAB, LF, VT, FF, CR, SP and NBSP.\<close>

definition is_ws :: "char \<Rightarrow> bool" where
  "is_ws c = (c = CHR 0x09 \<or> c = CHR 0x0A \<or> c = CHR 0x0B \<or> c = CHR 0x0C \<or>
              c = CHR 0x0D \<or> c = CHR 0x20 \<or> c = CHR 0xA0)"

definition trim :: "string \<Rightarrow> string" where
  "trim s = rev (dropWhile is_ws (rev (dropWhile is_ws s)))"

text \<open>\<^verbatim>\<open>s.split(c)\<close> for a one-character separator: the pieces between the
  occurrences of \<open>c\<close>; \<^verbatim>\<open>"".split(".")\<close> is \<^verbatim>\<open>[""]\<close>.\<close>

fun split_on :: "char \<Rightarrow> string \<Rightarrow> string list" where
  "split_on c [] = [[]]"
| "split_on c (x # xs) =
     (if x = c then [] # split_on c xs
      else (case split_on c xs of
              [] \<Rightarrow> [[x]]
            | p # ps \<Rightarrow> (x # p) # ps))"

text \<open>\<^verbatim>\<open>xs.join(sep)\<close>.\<close>

fun join :: "string \<Rightarrow> string list \<Rightarrow> string" where
  "join sep [] = []"
| "join sep [x] = x"
| "join sep (x # y # ys) = x @ sep @ join sep (y # ys)"

text \<open>\<^verbatim>\<open>xs.indexOf(x)\<close>: the first index holding \<open>x\<close>, or \<open>-1\<close>.\<close>

fun indexOf_from :: "int \<Rightarrow> 'a list \<Rightarrow> 'a \<Rightarrow> int" where
  "indexOf_from i [] x = -1"
| "indexOf_from i (y # ys) x = (if y = x then i else indexOf_from (i + 1) ys x)"

definition indexOf :: "'a list \<Rightarrow> 'a \<Rightarrow> int" where
  "indexOf xs x = indexOf_from 0 xs x"

text \<open>\<^verbatim>\<open>xs.filter((x, index, array) => p(x, index, array))\<close>: the callback sees the
  element, its index and the whole array.\<close>

fun filter_indexed_from ::
  "('a \<Rightarrow> int \<Rightarrow> 'a list \<Rightarrow> bool) \<Rightarrow> 'a list \<Rightarrow> int \<Rightarrow> 'a list \<Rightarrow> 'a list" where
  "filter_indexed_from p arr i [] = []"
| "filter_indexed_from p arr i (x # xs) =
     (if p x i arr then x # filter_indexed_from p arr (i + 1) xs
      else filter_indexed_from p arr (i + 1) xs)"

definition filter_indexed :: "('a \<Rightarrow> int \<Rightarrow> 'a list \<Rightarrow> bool) \<Rightarrow> 'a list \<Rightarrow> 'a list" where
  "filter_indexed p arr = filter_indexed_from p arr 0 arr"

text \<open>\<^verbatim>\<open>s.includes(t)\<close>: \<open>t\<close> occurs in \<open>s\<close> as a contiguous run; the empty string
  occurs in every string.\<close>

fun startsWith :: "string \<Rightarrow> string \<Rightarrow> bool" where
  "startsWith s [] = True"
| "startsWith [] (y # ys) = False"
| "startsWith (x # xs) (y # ys) = (x = y \<and> startsWith xs ys)"

fun includes_str :: "string \<Rightarrow> string \<Rightarrow> bool" where
  "includes_str [] t = (t = [])"
| "includes_str (x # xs) t = (startsWith (x # xs) t \<or> includes_str xs t)"

text \<open>\<^verbatim>\<open>s.toLowerCase()\<close> on code units below 256: A-Z and the Latin-1 capitals
  (U+00C0 to U+00DE without the multiplication sign U+00D7) move up by 32.\<close>

definition toLowerCase_char :: "char \<Rightarrow> char" where
  "toLowerCase_char c =
     (let n = (of_char c :: nat)
      in if (65 \<le> n \<and> n \<le> 90) \<or> (192 \<le> n \<and> n \<le> 222 \<and> n \<noteq> 215)
         then char_of (n + 32) else c)"

definition toLowerCase :: "string \<Rightarrow> string" where
  "toLowerCase s = map toLowerCase_char s"

text \<open>A sentence as \<^verbatim>\<open>formatContent\<close> leaves it: not empty, without a period, with
  no white space at either end.\<close>

definition is_sentence :: "string \<Rightarrow> bool" where
  "is_sentence s = (s \<noteq> [] \<and> CHR ''.'' \<notin> set s \<and> \<not> is_ws (hd s) \<and> \<not> is_ws (last s))"

section \<open>The data model (types.ts)\<close>

text \<open>
  A timestamp field is typed \<^verbatim>\<open>Date\<close>, but at run time it holds either a
  \<^verbatim>\<open>Date\<close> object (a time value in milliseconds since the epoch) or, in a note read
  back from local storage, the string that \<^verbatim>\<open>JSON.stringify\<close> wrote for it.
\<close>

datatype jstime = DateObj int | DateStr string

record NoteFormData =
  title :: string
  content :: string
  tags :: "string list"

record Note = NoteFormData +
  note_id :: string
  createdAt :: jstime
  updatedAt :: jstime
  favorite :: bool

datatype SortOption = SortDate | SortTitle | SortFavorite

section \<open>The coordinator (App.tsx)\<close>

text \<open>The two state cells of \<^verbatim>\<open>App\<close>: \<^verbatim>\<open>notes\<close> (here \<open>notes_st\<close>) and
  \<^verbatim>\<open>selectedNote\<close>, which holds a copy of the note that was clicked.\<close>

record app_state =
  notes_st :: "Note list"
  selectedNote :: "Note option"

text \<open>
  \<^verbatim>\<open>handleSaveNote(data)\<close>. The clock and \<^verbatim>\<open>crypto.randomUUID()\<close> are inputs: \<open>now\<close>
  is the value of the first \<^verbatim>\<open>new Date()\<close> of the call, \<open>now'\<close> of the second (the
  create branch reads the clock twice), \<open>uuid\<close> the fresh identifier.
\<close>

definition handleSaveNote ::
  "int \<Rightarrow> int \<Rightarrow> string \<Rightarrow> NoteFormData \<Rightarrow> app_state \<Rightarrow> app_state" where
  "handleSaveNote now now' uuid data st =
     (case selectedNote st of
        Some sel \<Rightarrow>
          st\<lparr>notes_st :=
               map (\<lambda>note. if note_id note = note_id sel
                            then note\<lparr>title := title data, content := content data,
                                      tags := tags data, updatedAt := DateObj now\<rparr>
                            else note)
                   (notes_st st),
             selectedNote := None\<rparr>
      | None \<Rightarrow>
          st\<lparr>notes_st :=
               \<lparr>title = title data, content = content data,
                tags = ''meeting'' # tags data,
                note_id = uuid, createdAt = DateObj now, updatedAt = DateObj now',
                favorite = False\<rparr> # notes_st st\<rparr>)"

text \<open>\<^verbatim>\<open>handleDeleteNote(id)\<close>; \<open>confirmed\<close> is the answer of \<^verbatim>\<open>window.confirm\<close>.\<close>

definition handleDeleteNote :: "bool \<Rightarrow> string \<Rightarrow> app_state \<Rightarrow> app_state" where
  "handleDeleteNote confirmed i st =
     (if confirmed
      then (let st' = st\<lparr>notes_st := filter (\<lambda>note. note_id note \<noteq> i) (notes_st st)\<rparr>
            in case selectedNote st of
                 Some sel \<Rightarrow> if note_id sel = i then st'\<lparr>selectedNote := None\<rparr> else st'
               | None \<Rightarrow> st')
      else st)"

definition handleToggleFavorite :: "string \<Rightarrow> app_state \<Rightarrow> app_state" where
  "handleToggleFavorite i st =
     st\<lparr>notes_st :=
          map (\<lambda>note. if note_id note = i then note\<lparr>favorite := \<not> favorite note\<rparr> else note)
              (notes_st st)\<rparr>"

section \<open>The editor (NoteEditor.tsx)\<close>

text \<open>The draft of a fresh editor; \<open>today\<close> is
  \<^verbatim>\<open>new Date().toLocaleDateString('en-US', {...})\<close>.\<close>

definition template :: "string \<Rightarrow> NoteFormData" where
  "template today =
     \<lparr>title = ''Meeting Notes - '' @ today, content = '''', tags = [''meeting'']\<rparr>"

text \<open>The effect that runs when the selection changes (and once on mount).\<close>

definition selection_effect :: "string \<Rightarrow> Note option \<Rightarrow> NoteFormData" where
  "selection_effect today sel =
     (case sel of
        Some n \<Rightarrow> \<lparr>title = title n, content = content n, tags = tags n\<rparr>
      | None \<Rightarrow> template today)"

text \<open>The state the two components share in one event: the coordinator's state and
  the editor's draft.\<close>

record ui_state =
  app :: app_state
  formData :: NoteFormData

text \<open>\<^verbatim>\<open>handleClear()\<close>: the draft becomes the template and \<^verbatim>\<open>onClear\<close> drops the
  selection.\<close>

definition handleClear :: "string \<Rightarrow> ui_state \<Rightarrow> ui_state" where
  "handleClear today ui =
     ui\<lparr>formData := template today, app := (app ui)\<lparr>selectedNote := None\<rparr>\<rparr>"

text \<open>\<^verbatim>\<open>handleSubmit(e)\<close>: the second component is \<open>True\<close> when the validation alert
  was shown.\<close>

definition handleSubmit ::
  "string \<Rightarrow> int \<Rightarrow> int \<Rightarrow> string \<Rightarrow> ui_state \<Rightarrow> ui_state \<times> bool" where
  "handleSubmit today now now' uuid ui =
     (if trim (title (formData ui)) = [] \<or> trim (content (formData ui)) = []
      then (ui, True)
      else (handleClear today
              (ui\<lparr>app := handleSaveNote now now' uuid (formData ui) (app ui)\<rparr>),
            False))"

text \<open>The \<^verbatim>\<open>onChange\<close> handlers of the title input and of the content textarea.\<close>

definition set_title :: "string \<Rightarrow> ui_state \<Rightarrow> ui_state" where
  "set_title v ui = ui\<lparr>formData := (formData ui)\<lparr>title := v\<rparr>\<rparr>"

definition set_content :: "string \<Rightarrow> ui_state \<Rightarrow> ui_state" where
  "set_content v ui = ui\<lparr>formData := (formData ui)\<lparr>content := v\<rparr>\<rparr>"

text \<open>\<^verbatim>\<open>formatContent()\<close>, the \<^verbatim>\<open>onBlur\<close> handler of the content textarea.\<close>

definition formatContent :: "NoteFormData \<Rightarrow> NoteFormData" where
  "formatContent fd =
     (let cleanContent =
            join ''. '' (filter (\<lambda>sentence. sentence \<noteq> [])
                           (map trim (split_on CHR ''.'' (content fd))))
      in fd\<lparr>content := cleanContent @ ''.''\<rparr>)"

text \<open>\<^verbatim>\<open>recognition.onresult\<close>: \<open>results\<close> are the transcripts
  \<^verbatim>\<open>result[0].transcript\<close> of \<^verbatim>\<open>event.results\<close>, in order.\<close>

definition onresult :: "string list \<Rightarrow> NoteFormData \<Rightarrow> NoteFormData" where
  "onresult results prev =
     (let transcript = join '' '' results;
          cleanedTranscript =
            join ''. ''
              (filter_indexed
                 (\<lambda>sentence index array. sentence \<noteq> [] \<and> indexOf array sentence = index)
                 (map trim (split_on CHR ''.'' transcript)))
      in prev\<lparr>content := cleanedTranscript\<rparr>)"

text \<open>The start of a session: no stored notes, nothing selected, the editor mounted.\<close>

definition initial_ui :: "string \<Rightarrow> ui_state" where
  "initial_ui today =
     \<lparr>app = \<lparr>notes_st = [], selectedNote = None\<rparr>, formData = selection_effect today None\<rparr>"

section \<open>The platform\<close>

text \<open>
  \<^verbatim>\<open>Date.prototype.toISOString\<close> of a time value \<open>t\<close> (milliseconds since the epoch,
  UTC): \<^verbatim>\<open>YYYY-MM-DDTHH:mm:ss.sssZ\<close>, the year with a sign and six digits outside
  0..9999. The date of a day number is computed era by era (400 years, 146097 days).
\<close>

fun digits :: "nat \<Rightarrow> nat \<Rightarrow> string" where
  "digits 0 n = []"
| "digits (Suc k) n = digits k (n div 10) @ [char_of (48 + n mod 10)]"

definition civil_from_days :: "int \<Rightarrow> int \<times> int \<times> int" where
  "civil_from_days z0 =
     (let z = z0 + 719468;
          era = z div 146097;
          doe = z mod 146097;
          yoe = (doe - doe div 1460 + doe div 36524 - doe div 146096) div 365;
          doy = doe - (365 * yoe + yoe div 4 - yoe div 100);
          mp = (5 * doy + 2) div 153;
          d = doy - (153 * mp + 2) div 5 + 1;
          m = (if mp < 10 then mp + 3 else mp - 9);
          y = yoe + era * 400 + (if m \<le> 2 then 1 else 0)
      in (y, m, d))"

definition year_string :: "int \<Rightarrow> string" where
  "year_string y =
     (if 0 \<le> y \<and> y \<le> 9999 then digits 4 (nat y)
      else if y < 0 then ''-'' @ digits 6 (nat (- y))
      else ''+'' @ digits 6 (nat y))"

definition toISOString :: "int \<Rightarrow> string" where
  "toISOString t =
     (let day = t div 86400000;
          tod = t mod 86400000;
          (y, m, d) = civil_from_days day
      in year_string y @ ''-'' @ digits 2 (nat m) @ ''-'' @ digits 2 (nat d) @ ''T'' @
         digits 2 (nat (tod div 3600000)) @ '':'' @
         digits 2 (nat (tod div 60000 mod 60)) @ '':'' @
         digits 2 (nat (tod div 1000 mod 60)) @ ''.'' @
         digits 3 (nat (tod mod 1000)) @ ''Z'')"

text \<open>
  What the host decides and the program only calls: \<^verbatim>\<open>Date.parse\<close> (\<open>None\<close> for a
  string that is no date), \<^verbatim>\<open>toLocaleString\<close> of a time value (\<open>None\<close> is the
  invalid date) and the collation \<^verbatim>\<open>localeCompare\<close> of the default locale.
\<close>

record platform =
  Date_parse :: "string \<Rightarrow> int option"
  toLocaleString :: "int option \<Rightarrow> string"
  localeCompare :: "string \<Rightarrow> string \<Rightarrow> int"

text \<open>\<^verbatim>\<open>new Date(x)\<close> for a timestamp field \<open>x\<close>: its time value.\<close>

definition new_Date :: "platform \<Rightarrow> jstime \<Rightarrow> int option" where
  "new_Date pf x = (case x of DateObj t \<Rightarrow> Some t | DateStr s \<Rightarrow> Date_parse pf s)"

text \<open>\<^verbatim>\<open>xs.sort(cmp)\<close>: the sort is stable; \<open>x\<close> moves behind \<open>y\<close> only when
  \<open>cmp x y\<close> is positive.\<close>

fun insert_by :: "('a \<Rightarrow> 'a \<Rightarrow> int) \<Rightarrow> 'a \<Rightarrow> 'a list \<Rightarrow> 'a list" where
  "insert_by cmp x [] = [x]"
| "insert_by cmp x (y # ys) = (if cmp x y > 0 then y # insert_by cmp x ys else x # y # ys)"

definition sort_by :: "('a \<Rightarrow> 'a \<Rightarrow> int) \<Rightarrow> 'a list \<Rightarrow> 'a list" where
  "sort_by cmp xs = foldr (insert_by cmp) xs []"

text \<open>The language fixes the result of \<^verbatim>\<open>sort\<close> for a consistent comparator: one
  whose three outcomes (negative, zero, positive) split the values into classes of
  equal values and order these classes.\<close>

definition consistent_comparator :: "('a \<Rightarrow> 'a \<Rightarrow> int) \<Rightarrow> bool" where
  "consistent_comparator cmp =
     ((\<forall>a. cmp a a = 0) \<and>
      (\<forall>a b. cmp a b = 0 \<longrightarrow> cmp b a = 0) \<and>
      (\<forall>a b c. cmp a b = 0 \<and> cmp b c = 0 \<longrightarrow> cmp a c = 0) \<and>
      (\<forall>a b c. cmp a b < 0 \<and> cmp b c < 0 \<longrightarrow> cmp a c < 0) \<and>
      (\<forall>a b c. cmp a b > 0 \<and> cmp b c > 0 \<longrightarrow> cmp a c > 0))"

section \<open>The list view (NoteList.tsx)\<close>

text \<open>\<^verbatim>\<open>filteredNotes\<close>. \<^verbatim>\<open>!selectedTag\<close> holds for \<^verbatim>\<open>null\<close> and for the empty
  string.\<close>

definition filteredNotes :: "string \<Rightarrow> string option \<Rightarrow> Note list \<Rightarrow> Note list" where
  "filteredNotes searchTerm selectedTag ns =
     filter (\<lambda>note.
        let matchesSearch =
              (includes_str (toLowerCase (title note)) (toLowerCase searchTerm) \<or>
               includes_str (toLowerCase (content note)) (toLowerCase searchTerm) \<or>
               list_ex (\<lambda>tag. includes_str (toLowerCase tag) (toLowerCase searchTerm))
                 (tags note));
            matchesTag =
              (case selectedTag of
                 None \<Rightarrow> True
               | Some t \<Rightarrow> t = [] \<or> t \<in> set (tags note))
        in matchesSearch \<and> matchesTag) ns"

text \<open>The comparator of \<^verbatim>\<open>sortedNotes\<close>; a difference with an invalid date is
  \<^verbatim>\<open>NaN\<close>, which the sort reads as 0.\<close>

definition compareNotes :: "platform \<Rightarrow> SortOption \<Rightarrow> Note \<Rightarrow> Note \<Rightarrow> int" where
  "compareNotes pf sortBy a b =
     (case sortBy of
        SortTitle \<Rightarrow> localeCompare pf (title a) (title b)
      | SortFavorite \<Rightarrow> (if favorite b then 1 else 0) - (if favorite a then 1 else 0)
      | SortDate \<Rightarrow>
          (case (new_Date pf (updatedAt b), new_Date pf (updatedAt a)) of
             (Some tb, Some ta) \<Rightarrow> tb - ta
           | _ \<Rightarrow> 0))"

definition sortedNotes :: "platform \<Rightarrow> SortOption \<Rightarrow> Note list \<Rightarrow> Note list" where
  "sortedNotes pf sortBy filtered = sort_by (compareNotes pf sortBy) filtered"

definition visibleNotes ::
  "platform \<Rightarrow> string \<Rightarrow> string option \<Rightarrow> SortOption \<Rightarrow> Note list \<Rightarrow> Note list" where
  "visibleNotes pf searchTerm selectedTag sortBy ns =
     sortedNotes pf sortBy (filteredNotes searchTerm selectedTag ns)"

text \<open>\<^verbatim>\<open>exportNote(note)\<close>: the Markdown text and the name of the download.\<close>

definition is_alnum :: "char \<Rightarrow> bool" where
  "is_alnum c =
     (let n = (of_char c :: nat)
      in (48 \<le> n \<and> n \<le> 57) \<or> (65 \<le> n \<and> n \<le> 90) \<or> (97 \<le> n \<and> n \<le> 122))"

definition exportNote :: "platform \<Rightarrow> Note \<Rightarrow> string \<times> string" where
  "exportNote pf note =
     (let markdown =
            ''# '' @ title note @ [nl, nl] @ content note @ [nl, nl] @ ''## Tags'' @ [nl] @
            join [nl] (map (\<lambda>tag. ''- '' @ tag) (tags note)) @ [nl, nl] @
            ''Created: '' @ toLocaleString pf (new_Date pf (createdAt note)) @ [nl] @
            ''Last Updated: '' @ toLocaleString pf (new_Date pf (updatedAt note))
      in (markdown,
          toLowerCase (map (\<lambda>c. if is_alnum c then c else CHR ''_'') (title note)) @ ''.md''))"

text \<open>\<^verbatim>\<open>exportAllNotes()\<close> over the notes on display; \<open>now\<close> is \<^verbatim>\<open>new Date()\<close>. The
  index \<^verbatim>\<open>[0]\<close> of an empty array would be \<^verbatim>\<open>undefined\<close>.\<close>

definition exportAllNotes :: "platform \<Rightarrow> int \<Rightarrow> Note list \<Rightarrow> string \<times> string" where
  "exportAllNotes pf now shown =
     (let markdown =
            join [nl]
              (map (\<lambda>note.
                 ''# '' @ title note @ [nl, nl] @ content note @ [nl, nl] @ ''## Tags'' @ [nl] @
                 join [nl] (map (\<lambda>tag. ''- '' @ tag) (tags note)) @ [nl, nl] @
                 ''Created: '' @ toLocaleString pf (new_Date pf (createdAt note)) @ [nl] @
                 ''Last Updated: '' @ toLocaleString pf (new_Date pf (updatedAt note)) @
                 [nl, nl] @ ''---'' @ [nl, nl]) shown)
      in (markdown,
          ''meeting_notes_'' @
          (case split_on CHR ''T'' (toISOString now) of
             [] \<Rightarrow> ''undefined''
           | date # _ \<Rightarrow> date) @ ''.md''))"

section \<open>Persistence (App.tsx)\<close>

text \<open>
  The JSON document of the slot \<^verbatim>\<open>notes\<close>. JSON has no dates:
  \<^verbatim>\<open>JSON.stringify\<close> writes a \<^verbatim>\<open>Date\<close> as the string its \<^verbatim>\<open>toJSON\<close> returns
  (\<^verbatim>\<open>toISOString\<close>) and a string as it is, and \<^verbatim>\<open>JSON.parse\<close>, called without a
  reviver, returns every string as a string.
\<close>

record stored_note = NoteFormData +
  stored_id :: string
  stored_createdAt :: string
  stored_updatedAt :: string
  stored_favorite :: bool

definition toJSON :: "jstime \<Rightarrow> string" where
  "toJSON x = (case x of DateObj t \<Rightarrow> toISOString t | DateStr s \<Rightarrow> s)"

definition JSON_stringify :: "Note list \<Rightarrow> stored_note list" where
  "JSON_stringify ns =
     map (\<lambda>n. \<lparr>title = title n, content = content n, tags = tags n,
                stored_id = note_id n, stored_createdAt = toJSON (createdAt n),
                stored_updatedAt = toJSON (updatedAt n), stored_favorite = favorite n\<rparr>) ns"

definition JSON_parse :: "stored_note list \<Rightarrow> Note list" where
  "JSON_parse doc =
     map (\<lambda>j. \<lparr>title = title j, content = content j, tags = tags j,
                note_id = stored_id j, createdAt = DateStr (stored_createdAt j),
                updatedAt = DateStr (stored_updatedAt j), favorite = stored_favorite j\<rparr>) doc"

text \<open>The effect \<^verbatim>\<open>localStorage.setItem('notes', JSON.stringify(notes))\<close> and the
  initializer of \<^verbatim>\<open>notes\<close>; \<open>None\<close> is the absent slot.\<close>

definition persist :: "Note list \<Rightarrow> stored_note list option" where
  "persist ns = Some (JSON_stringify ns)"

definition load_notes :: "stored_note list option \<Rightarrow> Note list" where
  "load_notes savedNotes = (case savedNotes of None \<Rightarrow> [] | Some doc \<Rightarrow> JSON_parse doc)"

section \<open>The specification's wording\<close>

text \<open>
  The definitions of this section follow the words of the specification, not the
  source; the theorems compare the handlers with them.

  Section 4.3, \<^verbatim>\<open>formatContent\<close>: split on period characters, trim each segment, drop
  the empty segments, rejoin with a period and a space.
\<close>

definition normalized_sentences :: "string \<Rightarrow> string" where
  "normalized_sentences c =
     join ''. '' (filter (\<lambda>seg. seg \<noteq> []) (map trim (split_on CHR ''.'' c)))"

text \<open>Section 4.3, transcript capture: of sentences with the same text only the first
  stays, in order. \<open>seen\<close> holds the sentences already kept.\<close>

fun keep_first_from :: "'a list \<Rightarrow> 'a list \<Rightarrow> 'a list" where
  "keep_first_from seen [] = []"
| "keep_first_from seen (x # xs) =
     (if x \<in> set seen then keep_first_from seen xs
      else x # keep_first_from (x # seen) xs)"

definition transcript_text :: "string list \<Rightarrow> string" where
  "transcript_text segments =
     join ''. ''
       (keep_first_from []
          (filter (\<lambda>piece. piece \<noteq> [])
             (map trim (split_on CHR ''.'' (join '' '' segments)))))"

text \<open>Section 4.2, \<^verbatim>\<open>exportAll\<close> as worded: the blocks of \<^verbatim>\<open>exportOne\<close> with a rule
  between neighbours; \<open>rule\<close> is the text of the separating line.\<close>

definition separated_export :: "platform \<Rightarrow> string \<Rightarrow> Note list \<Rightarrow> string" where
  "separated_export pf rule ns = join rule (map (\<lambda>n. fst (exportNote pf n)) ns)"

text \<open>Section 4.2, the sort key \<^verbatim>\<open>title\<close> as worded: the lexicographic order of the
  strings, code unit by code unit.\<close>

fun compare_units :: "nat list \<Rightarrow> nat list \<Rightarrow> int" where
  "compare_units [] [] = 0"
| "compare_units [] (y # ys) = -1"
| "compare_units (x # xs) [] = 1"
| "compare_units (x # xs) (y # ys) =
     (if x < y then -1 else if y < x then 1 else compare_units xs ys)"

definition code_unit_le :: "string \<Rightarrow> string \<Rightarrow> bool" where
  "code_unit_le a b = (compare_units (map of_char a) (map of_char b) \<le> 0)"

text \<open>Section 4.2, the \<^verbatim>\<open><ISO date>\<close> of the export's file name: year, month and day of
  the UTC day of \<open>t\<close>.\<close>

definition iso_date :: "int \<Rightarrow> string" where
  "iso_date t =
     (let (y, m, d) = civil_from_days (t div 86400000)
      in year_string y @ ''-'' @ digits 2 (nat m) @ ''-'' @ digits 2 (nat d))"

section \<open>Sample data\<close>

text \<open>A collation that ranks the letters before their case, as the Unicode collation
  does at its first level: the lower-cased strings are compared.\<close>

definition caseless_compare :: "string \<Rightarrow> string \<Rightarrow> int" where
  "caseless_compare a b =
     compare_units (map of_char (toLowerCase a)) (map of_char (toLowerCase b))"

text \<open>A platform for evaluating examples: it prints a time value in ISO format, knows
  no date string and compares titles with \<open>caseless_compare\<close>.\<close>

definition sample_platform :: platform where
  "sample_platform =
     \<lparr>Date_parse = (\<lambda>s. None),
      toLocaleString = (\<lambda>t. case t of None \<Rightarrow> ''Invalid Date'' | Some ms \<Rightarrow> toISOString ms),
      localeCompare = caseless_compare\<rparr>"

definition titled :: "string \<Rightarrow> string \<Rightarrow> Note" where
  "titled i t =
     \<lparr>title = t, content = ''Notes.'', tags = [''meeting''], note_id = i,
      createdAt = DateObj 0, updatedAt = DateObj 0, favorite = False\<rparr>"

definition fruit_notes :: "Note list" where
  "fruit_notes =
     [titled ''id-1'' ''Banana'', titled ''id-2'' ''apple'', titled ''id-3'' ''Cherry'']"

definition standup :: Note where
  "standup =
     \<lparr>title = ''Standup'', content = ''We shipped X.'', tags = [''meeting'', ''work''],
      note_id = ''id-1'', createdAt = DateObj 0, updatedAt = DateObj 60000,
      favorite = False\<rparr>"

definition retro :: Note where
  "retro =
     \<lparr>title = ''Retro'', content = ''Went well.'', tags = [''meeting''],
      note_id = ''id-2'', createdAt = DateObj 1000, updatedAt = DateObj 2000,
      favorite = True\<rparr>"

definition two_notes :: app_state where
  "two_notes = \<lparr>notes_st = [standup, retro], selectedNote = None\<rparr>"

text \<open>A state whose selection is a copy of a note that is not in the collection.\<close>

definition stale_selection :: app_state where
  "stale_selection =
     \<lparr>notes_st = [standup, retro], selectedNote = Some (retro\<lparr>note_id := ''id-9''\<rparr>)\<rparr>"

definition blank_draft :: ui_state where
  "blank_draft =
     \<lparr>app = two_notes, formData = \<lparr>title = ''Standup'', content = ''   '', tags = [''meeting'']\<rparr>\<rparr>"

text \<open>The note \<open>standup\<close> selected for editing, an empty draft, and a draft that passes
  the editor's check.\<close>

definition standup_selected :: app_state where
  "standup_selected = \<lparr>notes_st = [standup, retro], selectedNote = Some standup\<rparr>"

definition empty_draft :: NoteFormData where
  "empty_draft = \<lparr>title = '''', content = '''', tags = []\<rparr>"

definition filled_draft :: ui_state where
  "filled_draft =
     \<lparr>app = two_notes,
      formData = \<lparr>title = ''Planning'', content = ''Next steps.'', tags = [''meeting'']\<rparr>\<rparr>"

section \<open>Lemmas on arrays and strings\<close>

lemma map_toggle_twice:
  "map (\<lambda>note. if note_id note = i then note\<lparr>favorite := \<not> favorite note\<rparr> else note)
     (map (\<lambda>note. if note_id note = i then note\<lparr>favorite := \<not> favorite note\<rparr> else note) ns)
   = ns"
  by (induction ns) auto

lemma map_no_match:
  "i \<notin> note_id ` set ns \<Longrightarrow> map (\<lambda>note. if note_id note = i then f note else note) ns = ns"
  by (induction ns) auto

lemma filter_no_match:
  "i \<notin> note_id ` set ns \<Longrightarrow> filter (\<lambda>note. note_id note \<noteq> i) ns = ns"
  by (induction ns) auto

lemma map_update_changes:
  assumes "n \<in> set ns" "f n \<noteq> n"
  shows "map f ns \<noteq> ns"
proof
  assume "map f ns = ns"
  then have "\<forall>x \<in> set ns. f x = x"
    by (simp add: map_idI map_eq_conv [of f ns id, simplified])
  with assms show False by blast
qed

lemma includes_str_Nil: "includes_str s [] = True"
  by (induction s) auto

lemma split_on_first: "split_on c s = takeWhile (\<lambda>x. x \<noteq> c) s # tl (split_on c s)"
  by (induction s) (auto split: list.splits)

lemma set_insert_by: "set (insert_by cmp x ys) = insert x (set ys)"
  by (induction ys) auto

lemma set_sort_by: "set (sort_by cmp xs) = set xs"
  by (induction xs) (auto simp: sort_by_def set_insert_by)

lemma length_insert_by: "length (insert_by cmp x ys) = Suc (length ys)"
  by (induction ys) auto

lemma length_sort_by: "length (sort_by cmp xs) = length xs"
  by (induction xs) (auto simp: sort_by_def length_insert_by)

text \<open>The first index of \<open>x\<close> in an array is the position \<open>x\<close> stands at exactly when
  \<open>x\<close> does not occur before that position.\<close>

lemma indexOf_from_notin:
  "x \<notin> set pre \<Longrightarrow> indexOf_from k (pre @ x # xs) x = k + int (length pre)"
  by (induction pre arbitrary: k) auto

lemma indexOf_from_in:
  "x \<in> set pre \<Longrightarrow> indexOf_from k (pre @ ys) x < k + int (length pre)"
proof (induction pre arbitrary: k)
  case Nil
  then show ?case by simp
next
  case (Cons a pre)
  show ?case
  proof (cases "a = x")
    case True
    then show ?thesis by simp
  next
    case False
    with Cons.prems have "x \<in> set pre" by simp
    from Cons.IH [OF this, of "k + 1"] False show ?thesis by simp
  qed
qed

lemma indexOf_first:
  "indexOf (pre @ x # xs) x = int (length pre) \<longleftrightarrow> x \<notin> set pre"
  using indexOf_from_notin [of x pre 0 xs] indexOf_from_in [of x pre 0 "x # xs"]
  by (auto simp: indexOf_def)

text \<open>The filter of \<^verbatim>\<open>onresult\<close>, run from position \<open>length pre\<close> of the array
  \<open>pre @ xs\<close>, keeps what \<open>keep_first_from\<close> keeps when \<open>seen\<close> holds the non-empty
  sentences of \<open>pre\<close>.\<close>

lemma filter_indexed_from_keep_first:
  "set seen = {s \<in> set pre. s \<noteq> []} \<Longrightarrow>
   filter_indexed_from
      (\<lambda>sentence index array. sentence \<noteq> [] \<and> indexOf array sentence = index)
      (pre @ xs) (int (length pre)) xs =
   keep_first_from seen (filter (\<lambda>piece. piece \<noteq> []) xs)"
proof (induction xs arbitrary: pre seen)
  case Nil
  then show ?case by simp
next
  case (Cons x xs)
  let ?p = "\<lambda>sentence index array. sentence \<noteq> ([]::'a list) \<and> indexOf array sentence = index"
  have step: "filter_indexed_from ?p ((pre @ [x]) @ xs) (int (length (pre @ [x]))) xs =
      keep_first_from seen' (filter (\<lambda>piece. piece \<noteq> []) xs)"
    if "set seen' = {s \<in> set (pre @ [x]). s \<noteq> []}" for seen'
    using that by (rule Cons.IH)
  show ?case
  proof (cases "x = []")
    case True
    have "set seen = {s \<in> set (pre @ [x]). s \<noteq> []}"
      using Cons.prems True by auto
    from step [OF this] True show ?thesis
      by (simp add: add.commute)
  next
    case False
    show ?thesis
    proof (cases "x \<in> set pre")
      case True
      have "set seen = {s \<in> set (pre @ [x]). s \<noteq> []}"
        using Cons.prems True by auto
      from step [OF this] True False Cons.prems show ?thesis
        by (simp add: indexOf_first add.commute)
    next
      case notin: False
      have "set (x # seen) = {s \<in> set (pre @ [x]). s \<noteq> []}"
        using Cons.prems False by auto
      from step [OF this] notin False Cons.prems show ?thesis
        by (simp add: indexOf_first add.commute)
    qed
  qed
qed

lemma filter_indexed_keep_first:
  "filter_indexed
     (\<lambda>sentence index array. sentence \<noteq> [] \<and> indexOf array sentence = index) xs =
   keep_first_from [] (filter (\<lambda>piece. piece \<noteq> []) xs)"
  using filter_indexed_from_keep_first [of "[]" "[]" xs]
  by (simp add: filter_indexed_def)

section \<open>Lemmas on sentences\<close>

text \<open>The pieces of \<^verbatim>\<open>split\<close> hold no separator, \<^verbatim>\<open>trim\<close> leaves no white space at
  the ends, and splitting the rejoined sentences gives the sentences back.\<close>

lemma split_on_nonempty: "split_on c s \<noteq> []"
  by (induction s) (auto split: list.splits)

lemma split_on_pieces: "p \<in> set (split_on c s) \<Longrightarrow> c \<notin> set p"
proof (induction s arbitrary: p)
  case Nil
  then show ?case by simp
next
  case (Cons x xs)
  obtain q qs where sp: "split_on c xs = q # qs"
    using split_on_nonempty [of c xs] by (cases "split_on c xs") auto
  show ?case
  proof (cases "x = c")
    case True
    with Cons show ?thesis by auto
  next
    case False
    with Cons.prems sp have "p = x # q \<or> p \<in> set qs" by auto
    with Cons.IH sp False show ?thesis by auto
  qed
qed

lemma last_dropWhile: "dropWhile P xs \<noteq> [] \<Longrightarrow> last (dropWhile P xs) = last xs"
  by (induction xs) (auto split: if_splits)

lemma trim_ends:
  assumes "trim s \<noteq> []"
  shows "\<not> is_ws (hd (trim s)) \<and> \<not> is_ws (last (trim s))"
proof -
  let ?t = "dropWhile is_ws s"
  let ?u = "dropWhile is_ws (rev ?t)"
  from assms have u: "?u \<noteq> []" by (simp add: trim_def)
  have t: "?t \<noteq> []"
  proof
    assume "?t = []"
    then have "?u = []" by (simp only: rev.simps dropWhile.simps)
    with u show False by simp
  qed
  have "last (trim s) = hd ?u" using u by (simp add: trim_def last_rev)
  moreover have "\<not> is_ws (hd ?u)" using u by (rule hd_dropWhile)
  moreover have "hd (trim s) = last ?u" using u by (simp add: trim_def hd_rev)
  moreover have "last ?u = last (rev ?t)" using u by (rule last_dropWhile)
  moreover have "last (rev ?t) = hd ?t" using t by (simp add: last_rev)
  moreover have "\<not> is_ws (hd ?t)" using t by (rule hd_dropWhile)
  ultimately show ?thesis by simp
qed

lemma trim_fixed:
  assumes "s \<noteq> []" "\<not> is_ws (hd s)" "\<not> is_ws (last s)"
  shows "trim s = s"
proof -
  have "dropWhile is_ws s = s" using assms(1,2) by (cases s) auto
  moreover have "dropWhile is_ws (rev s) = rev s"
    using assms(1,3) by (cases "rev s") (auto simp: last_rev [symmetric] hd_rev)
  ultimately show ?thesis by (simp add: trim_def)
qed

lemma set_trim: "set (trim s) \<subseteq> set s"
proof -
  have "set (trim s) \<subseteq> set (rev (dropWhile is_ws s))"
    unfolding trim_def using set_dropWhileD [of _ is_ws "rev (dropWhile is_ws s)"] by auto
  also have "\<dots> \<subseteq> set s"
    using set_dropWhileD [of _ is_ws s] by auto
  finally show ?thesis .
qed

lemma sentences_of_content:
  "list_all is_sentence (filter (\<lambda>seg. seg \<noteq> []) (map trim (split_on CHR ''.'' c)))"
proof -
  have "is_sentence (trim p)" if "p \<in> set (split_on CHR ''.'' c)" "trim p \<noteq> []" for p
  proof -
    from that(1) have "CHR ''.'' \<notin> set p" by (rule split_on_pieces)
    with set_trim [of p] have "CHR ''.'' \<notin> set (trim p)" by blast
    with trim_ends [OF that(2)] that(2) show ?thesis by (simp add: is_sentence_def)
  qed
  then show ?thesis by (auto simp: list_all_iff)
qed

lemma split_on_append:
  "c \<notin> set p \<Longrightarrow> split_on c (p @ c # rest) = p # split_on c rest"
  by (induction p) auto

lemma split_on_joined:
  assumes "ss \<noteq> []" "list_all is_sentence ss" "CHR ''.'' \<notin> set pre"
  shows "split_on CHR ''.'' (pre @ join ''. '' ss @ ''.'') =
         (pre @ hd ss) # map (\<lambda>s. CHR '' '' # s) (tl ss) @ [[]]"
  using assms
proof (induction ss arbitrary: pre)
  case Nil
  then show ?case by simp
next
  case (Cons s rest)
  from Cons.prems have s: "CHR ''.'' \<notin> set (pre @ s)"
    by (simp add: is_sentence_def)
  show ?case
  proof (cases rest)
    case Nil
    have "split_on CHR ''.'' ((pre @ s) @ CHR ''.'' # []) = (pre @ s) # split_on CHR ''.'' []"
      using s by (rule split_on_append)
    with Nil show ?thesis by simp
  next
    case (Cons t r)
    have "split_on CHR ''.'' ((pre @ s) @ CHR ''.'' # ('' '' @ join ''. '' rest @ ''.'')) =
          (pre @ s) # split_on CHR ''.'' ('' '' @ join ''. '' rest @ ''.'')"
      using s by (rule split_on_append)
    moreover have "split_on CHR ''.'' ('' '' @ join ''. '' rest @ ''.'') =
          ('' '' @ hd rest) # map (\<lambda>s. CHR '' '' # s) (tl rest) @ [[]]"
      using Cons Cons.prems by (intro Cons.IH) simp_all
    ultimately show ?thesis using Cons by simp
  qed
qed

lemma trim_space_sentence: "is_sentence s \<Longrightarrow> trim (CHR '' '' # s) = s"
proof -
  assume h: "is_sentence s"
  then have "trim s = s" by (intro trim_fixed) (simp_all add: is_sentence_def)
  moreover have "dropWhile is_ws (CHR '' '' # s) = dropWhile is_ws s"
    by (simp add: is_ws_def)
  ultimately show ?thesis by (simp add: trim_def)
qed

lemma sentences_rejoined:
  assumes "list_all is_sentence ss"
  shows "filter (\<lambda>seg. seg \<noteq> []) (map trim (split_on CHR ''.'' (join ''. '' ss @ ''.''))) = ss"
proof (cases ss)
  case Nil
  then show ?thesis by (simp add: trim_def)
next
  case (Cons s rest)
  have sp: "split_on CHR ''.'' (join ''. '' ss @ ''.'') =
        hd ss # map (\<lambda>s. CHR '' '' # s) (tl ss) @ [[]]"
    using split_on_joined [of ss "[]"] assms Cons by simp
  have first: "trim s = s" "s \<noteq> []"
    using assms Cons by (simp_all add: trim_fixed is_sentence_def)
  have rest: "list_all is_sentence rest"
    using assms Cons by simp
  have "map trim (map (\<lambda>s. CHR '' '' # s) rest) = rest"
    using rest by (induction rest) (simp_all add: trim_space_sentence)
  moreover have "filter (\<lambda>seg. seg \<noteq> []) rest = rest"
    using rest by (induction rest) (simp_all add: is_sentence_def)
  ultimately show ?thesis
    using sp Cons first by (simp add: trim_def)
qed

lemma normalized_sentences_idem:
  "normalized_sentences (normalized_sentences c @ ''.'') = normalized_sentences c"
  using sentences_rejoined [OF sentences_of_content [of c]]
  by (simp add: normalized_sentences_def)

text \<open>After \<^verbatim>\<open>formatContent\<close> the content is never blank: it ends with the period.\<close>

lemma formatContent_never_blank: "trim (content (formatContent fd)) \<noteq> []"
  by (simp add: formatContent_def trim_def dropWhile_append3 is_ws_def)

section \<open>The coordinator's mutations\<close>

text \<open>
  C1, as stated, fails. The fresh draft already carries the tag \<^verbatim>\<open>meeting\<close> and the
  create branch of \<^verbatim>\<open>handleSaveNote\<close> puts \<^verbatim>\<open>meeting\<close> in front of the draft's tags:
  after typing the title and the content into a fresh editor and submitting, the
  collection does not consist of one note with tags \<^verbatim>\<open>["meeting"]\<close>.
\<close>

theorem create_from_editor_counterexample:
  "\<not> (\<exists>n. notes_st (app (fst (handleSubmit ''Monday, January 1, 2024'' 0 0 ''id-1''
              (set_content ''We shipped X.'' (set_title ''Standup''
                 (initial_ui ''Monday, January 1, 2024'')))))) = [n]
          \<and> tags n = [''meeting''] \<and> favorite n = False)"
  by (simp add: handleSubmit_def handleClear_def handleSaveNote_def set_content_def
        set_title_def initial_ui_def selection_effect_def template_def trim_def is_ws_def)

text \<open>
  C1, amended. Starting from an empty collection with nothing selected, typing the title
  \<^verbatim>\<open>Standup\<close> and the content \<^verbatim>\<open>We shipped X.\<close> into the fresh editor and submitting
  yields a collection of exactly one note, with the fresh id, tags
  \<^verbatim>\<open>["meeting", "meeting"]\<close> and favorite false; the same holds when the content field
  lost focus (\<^verbatim>\<open>formatContent\<close>) before the submit.
\<close>

theorem create_from_editor:
  "notes_st (app (fst (handleSubmit today now now' uuid
              (set_content ''We shipped X.'' (set_title ''Standup'' (initial_ui today)))))) =
     [\<lparr>title = ''Standup'', content = ''We shipped X.'', tags = [''meeting'', ''meeting''],
       note_id = uuid, createdAt = DateObj now, updatedAt = DateObj now', favorite = False\<rparr>] \<and>
   formData (set_content ''We shipped X.'' (set_title ''Standup'' (initial_ui today))) =
     \<lparr>title = ''Standup'', content = ''We shipped X.'', tags = [''meeting'']\<rparr> \<and>
   formatContent \<lparr>title = ''Standup'', content = ''We shipped X.'', tags = [''meeting'']\<rparr> =
     \<lparr>title = ''Standup'', content = ''We shipped X.'', tags = [''meeting'']\<rparr>"
  by (simp add: handleSubmit_def handleClear_def handleSaveNote_def set_content_def
        set_title_def initial_ui_def selection_effect_def template_def trim_def is_ws_def
        formatContent_def)

text \<open>
  C2, as stated, fails: \<^verbatim>\<open>handleSaveNote\<close> has no check of its own. Called with an empty
  title and an empty content, it stores a note on the empty collection when nothing is
  selected, and it overwrites the note \<open>standup\<close> when that note is selected.
\<close>

theorem saveNote_empty_draft_counterexample:
  "notes_st (handleSaveNote 0 0 ''id-1'' \<lparr>title = '''', content = '''', tags = []\<rparr>
              \<lparr>notes_st = [], selectedNote = None\<rparr>)
   \<noteq> notes_st \<lparr>notes_st = [], selectedNote = None\<rparr> \<and>
   notes_st (handleSaveNote 0 0 ''id-1'' \<lparr>title = '''', content = '''', tags = []\<rparr>
              standup_selected)
   \<noteq> notes_st standup_selected"
  by (simp add: handleSaveNote_def standup_selected_def standup_def retro_def)

text \<open>
  C2, amended. The check is the editor's. For every draft whose title or content is
  empty or only white space, \<^verbatim>\<open>handleSubmit\<close> shows the alert, does not call
  \<^verbatim>\<open>handleSaveNote\<close> and leaves the collection, the selection and the draft as they were;
  for every other draft it shows no alert, the collection becomes what \<^verbatim>\<open>handleSaveNote\<close>
  makes of it, the selection is dropped and the draft is the fresh template.
  \<^verbatim>\<open>handleSaveNote\<close> itself looks at neither title nor content. With no note selected
  it puts a new note made from the draft in front of the collection, which grows by one.
  With a note selected it keeps the length and writes the draft's title, content and
  tags and the time of the call into every note with the selected id, leaving the others
  alone; so the collection changes whenever a note with the selected id differs from the
  draft in title, content or tags.
\<close>

theorem submit_rejects_blank_draft:
  "(trim (title (formData ui)) = [] \<or> trim (content (formData ui)) = [] \<longrightarrow>
      handleSubmit today now now' uuid ui = (ui, True)) \<and>
   (trim (title (formData ui)) \<noteq> [] \<and> trim (content (formData ui)) \<noteq> [] \<longrightarrow>
      snd (handleSubmit today now now' uuid ui) = False \<and>
      notes_st (app (fst (handleSubmit today now now' uuid ui))) =
        notes_st (handleSaveNote now now' uuid (formData ui) (app ui)) \<and>
      selectedNote (app (fst (handleSubmit today now now' uuid ui))) = None \<and>
      formData (fst (handleSubmit today now now' uuid ui)) = template today) \<and>
   (selectedNote st = None \<longrightarrow>
      notes_st (handleSaveNote now now' uuid data st) =
        \<lparr>title = title data, content = content data, tags = ''meeting'' # tags data,
         note_id = uuid, createdAt = DateObj now, updatedAt = DateObj now',
         favorite = False\<rparr> # notes_st st \<and>
      length (notes_st (handleSaveNote now now' uuid data st)) = Suc (length (notes_st st)) \<and>
      notes_st (handleSaveNote now now' uuid data st) \<noteq> notes_st st) \<and>
   (selectedNote st = Some sel \<longrightarrow>
      length (notes_st (handleSaveNote now now' uuid data st)) = length (notes_st st) \<and>
      (\<forall>k < length (notes_st st).
         notes_st (handleSaveNote now now' uuid data st) ! k =
           (if note_id (notes_st st ! k) = note_id sel
            then (notes_st st ! k)\<lparr>title := title data, content := content data,
                                   tags := tags data, updatedAt := DateObj now\<rparr>
            else notes_st st ! k)) \<and>
      (\<forall>n \<in> set (notes_st st).
         note_id n = note_id sel \<and>
         (title n \<noteq> title data \<or> content n \<noteq> content data \<or> tags n \<noteq> tags data) \<longrightarrow>
         notes_st (handleSaveNote now now' uuid data st) \<noteq> notes_st st))"
proof -
  have blank: "handleSubmit today now now' uuid ui = (ui, True)"
    if "trim (title (formData ui)) = [] \<or> trim (content (formData ui)) = []"
    using that by (simp add: handleSubmit_def)
  have filled: "snd (handleSubmit today now now' uuid ui) = False \<and>
      notes_st (app (fst (handleSubmit today now now' uuid ui))) =
        notes_st (handleSaveNote now now' uuid (formData ui) (app ui)) \<and>
      selectedNote (app (fst (handleSubmit today now now' uuid ui))) = None \<and>
      formData (fst (handleSubmit today now now' uuid ui)) = template today"
    if "trim (title (formData ui)) \<noteq> [] \<and> trim (content (formData ui)) \<noteq> []"
    using that by (simp add: handleSubmit_def handleClear_def)
  have create: "notes_st (handleSaveNote now now' uuid data st) =
        \<lparr>title = title data, content = content data, tags = ''meeting'' # tags data,
         note_id = uuid, createdAt = DateObj now, updatedAt = DateObj now',
         favorite = False\<rparr> # notes_st st \<and>
      length (notes_st (handleSaveNote now now' uuid data st)) = Suc (length (notes_st st)) \<and>
      notes_st (handleSaveNote now now' uuid data st) \<noteq> notes_st st"
    if "selectedNote st = None"
    using that by (simp add: handleSaveNote_def)
  let ?f = "\<lambda>note. if note_id note = note_id sel
                    then note\<lparr>title := title data, content := content data,
                              tags := tags data, updatedAt := DateObj now\<rparr>
                    else note"
  have upd: "notes_st (handleSaveNote now now' uuid data st) = map ?f (notes_st st)"
    if "selectedNote st = Some sel"
    using that by (simp add: handleSaveNote_def)
  have changed: "notes_st (handleSaveNote now now' uuid data st) \<noteq> notes_st st"
    if s: "selectedNote st = Some sel" and n: "n \<in> set (notes_st st)" "note_id n = note_id sel"
      and d: "title n \<noteq> title data \<or> content n \<noteq> content data \<or> tags n \<noteq> tags data" for n
  proof -
    have "?f n \<noteq> n"
    proof
      assume "?f n = n"
      then have "title (?f n) = title n \<and> content (?f n) = content n \<and> tags (?f n) = tags n"
        by simp
      with n(2) d show False by auto
    qed
    with n(1) have "map ?f (notes_st st) \<noteq> notes_st st"
      by (rule map_update_changes)
    with upd [OF s] show ?thesis by simp
  qed
  have update: "length (notes_st (handleSaveNote now now' uuid data st)) = length (notes_st st) \<and>
      (\<forall>k < length (notes_st st).
         notes_st (handleSaveNote now now' uuid data st) ! k = ?f (notes_st st ! k)) \<and>
      (\<forall>n \<in> set (notes_st st).
         note_id n = note_id sel \<and>
         (title n \<noteq> title data \<or> content n \<noteq> content data \<or> tags n \<noteq> tags data) \<longrightarrow>
         notes_st (handleSaveNote now now' uuid data st) \<noteq> notes_st st)"
    if s: "selectedNote st = Some sel"
  proof (intro conjI ballI impI)
    show "length (notes_st (handleSaveNote now now' uuid data st)) = length (notes_st st)"
      by (simp add: upd [OF s])
    show "\<forall>k < length (notes_st st).
         notes_st (handleSaveNote now now' uuid data st) ! k = ?f (notes_st st ! k)"
      by (simp add: upd [OF s])
  next
    fix n
    assume "n \<in> set (notes_st st)"
      and "note_id n = note_id sel \<and>
         (title n \<noteq> title data \<or> content n \<noteq> content data \<or> tags n \<noteq> tags data)"
    then show "notes_st (handleSaveNote now now' uuid data st) \<noteq> notes_st st"
      using changed [OF s, of n] by blast
  qed
  show ?thesis
  proof (intro conjI impI)
    assume "trim (title (formData ui)) = [] \<or> trim (content (formData ui)) = []"
    then show "handleSubmit today now now' uuid ui = (ui, True)"
      by (rule blank)
  next
    assume h: "trim (title (formData ui)) \<noteq> [] \<and> trim (content (formData ui)) \<noteq> []"
    from filled [OF h]
    show "snd (handleSubmit today now now' uuid ui) = False"
      and "notes_st (app (fst (handleSubmit today now now' uuid ui))) =
        notes_st (handleSaveNote now now' uuid (formData ui) (app ui))"
      and "selectedNote (app (fst (handleSubmit today now now' uuid ui))) = None"
      and "formData (fst (handleSubmit today now now' uuid ui)) = template today"
      by blast+
  next
    assume h: "selectedNote st = None"
    from create [OF h]
    show "notes_st (handleSaveNote now now' uuid data st) =
        \<lparr>title = title data, content = content data, tags = ''meeting'' # tags data,
         note_id = uuid, createdAt = DateObj now, updatedAt = DateObj now',
         favorite = False\<rparr> # notes_st st"
      and "length (notes_st (handleSaveNote now now' uuid data st)) = Suc (length (notes_st st))"
      and "notes_st (handleSaveNote now now' uuid data st) \<noteq> notes_st st"
      by blast+
  next
    assume h: "selectedNote st = Some sel"
    from update [OF h]
    show "length (notes_st (handleSaveNote now now' uuid data st)) = length (notes_st st)"
      and "\<forall>k < length (notes_st st).
         notes_st (handleSaveNote now now' uuid data st) ! k =
           (if note_id (notes_st st ! k) = note_id sel
            then (notes_st st ! k)\<lparr>title := title data, content := content data,
                                   tags := tags data, updatedAt := DateObj now\<rparr>
            else notes_st st ! k)"
      and "\<forall>n \<in> set (notes_st st).
         note_id n = note_id sel \<and>
         (title n \<noteq> title data \<or> content n \<noteq> content data \<or> tags n \<noteq> tags data) \<longrightarrow>
         notes_st (handleSaveNote now now' uuid data st) \<noteq> notes_st st"
      by blast+
  qed
qed

theorem submit_rejects_blank_draft_witness:
  "handleSubmit ''Monday, January 1, 2024'' 5 6 ''id-3'' blank_draft = (blank_draft, True) \<and>
   snd (handleSubmit ''Monday, January 1, 2024'' 5 6 ''id-3'' filled_draft) = False \<and>
   length (notes_st (app (fst (handleSubmit ''Monday, January 1, 2024'' 5 6 ''id-3''
                                  filled_draft)))) = 3 \<and>
   length (notes_st (handleSaveNote 5 6 ''id-3'' empty_draft two_notes)) = 3 \<and>
   notes_st (handleSaveNote 5 6 ''id-3'' empty_draft standup_selected)
     \<noteq> notes_st standup_selected"
proof -
  have h1: "trim (title (formData blank_draft)) = [] \<or> trim (content (formData blank_draft)) = []"
    by (simp add: blank_draft_def trim_def is_ws_def)
  have h2: "trim (title (formData filled_draft)) \<noteq> [] \<and>
            trim (content (formData filled_draft)) \<noteq> []"
    by (simp add: filled_draft_def trim_def is_ws_def)
  have h3: "selectedNote two_notes = None" "length (notes_st two_notes) = 2"
    "app filled_draft = two_notes"
    by (simp_all add: two_notes_def filled_draft_def)
  have h4: "selectedNote standup_selected = Some standup"
    "standup \<in> set (notes_st standup_selected)"
    "title standup \<noteq> title empty_draft"
    by (simp_all add: standup_selected_def standup_def empty_draft_def)
  note blank = submit_rejects_blank_draft [where ui = blank_draft
      and today = "''Monday, January 1, 2024''" and now = 5 and now' = 6 and uuid = "''id-3''"
      and st = two_notes and data = empty_draft]
  note filled = submit_rejects_blank_draft [where ui = filled_draft
      and today = "''Monday, January 1, 2024''" and now = 5 and now' = 6 and uuid = "''id-3''"
      and st = two_notes and data = "formData filled_draft"]
  note update = submit_rejects_blank_draft [where ui = blank_draft
      and today = "''Monday, January 1, 2024''" and now = 5 and now' = 6 and uuid = "''id-3''"
      and st = standup_selected and data = empty_draft and sel = standup]
  have w1: "handleSubmit ''Monday, January 1, 2024'' 5 6 ''id-3'' blank_draft = (blank_draft, True)"
    using blank [THEN conjunct1] h1 by (rule mp)
  have w2: "snd (handleSubmit ''Monday, January 1, 2024'' 5 6 ''id-3'' filled_draft) = False"
    and w2': "notes_st (app (fst (handleSubmit ''Monday, January 1, 2024'' 5 6 ''id-3''
                 filled_draft))) =
              notes_st (handleSaveNote 5 6 ''id-3'' (formData filled_draft) (app filled_draft))"
    using filled [THEN conjunct2, THEN conjunct1, THEN mp, OF h2] by blast+
  have w3: "length (notes_st (handleSaveNote 5 6 ''id-3'' (formData filled_draft) two_notes)) =
            Suc (length (notes_st two_notes))"
    using filled [THEN conjunct2, THEN conjunct2, THEN conjunct1, THEN mp, OF h3(1)] by blast
  have w4: "length (notes_st (handleSaveNote 5 6 ''id-3'' empty_draft two_notes)) =
            Suc (length (notes_st two_notes))"
    using blank [THEN conjunct2, THEN conjunct2, THEN conjunct1, THEN mp, OF h3(1)] by blast
  have "\<forall>n \<in> set (notes_st standup_selected).
         note_id n = note_id standup \<and>
         (title n \<noteq> title empty_draft \<or> content n \<noteq> content empty_draft \<or>
          tags n \<noteq> tags empty_draft) \<longrightarrow>
         notes_st (handleSaveNote 5 6 ''id-3'' empty_draft standup_selected)
           \<noteq> notes_st standup_selected"
    using update [THEN conjunct2, THEN conjunct2, THEN conjunct2, THEN mp, OF h4(1)] by blast
  with h4(2,3) have w5: "notes_st (handleSaveNote 5 6 ''id-3'' empty_draft standup_selected)
           \<noteq> notes_st standup_selected"
    by blast
  from w1 w2 w2' w3 w4 w5 h3(2,3) show ?thesis
    by simp
qed

text \<open>
  C7. For every collection and every id, \<^verbatim>\<open>handleToggleFavorite\<close> applied twice gives
  back the state it started from, every field of every note included; applied once, it
  leaves the selection and the length of the collection alone, and the note at each
  position is the old one with only \<^verbatim>\<open>favorite\<close> negated when its id matches, and the
  old one otherwise.
\<close>

theorem toggleFavorite_involution:
  "handleToggleFavorite i (handleToggleFavorite i st) = st \<and>
   selectedNote (handleToggleFavorite i st) = selectedNote st \<and>
   length (notes_st (handleToggleFavorite i st)) = length (notes_st st) \<and>
   (\<forall>k < length (notes_st st).
      notes_st (handleToggleFavorite i st) ! k =
        (if note_id (notes_st st ! k) = i
         then (notes_st st ! k)\<lparr>favorite := \<not> favorite (notes_st st ! k)\<rparr>
         else notes_st st ! k))"
proof -
  have "handleToggleFavorite i (handleToggleFavorite i st) = st"
    by (simp add: handleToggleFavorite_def map_toggle_twice del: map_map)
  then show ?thesis
    by (simp add: handleToggleFavorite_def)
qed

theorem toggleFavorite_involution_witness:
  "handleToggleFavorite ''id-1'' (handleToggleFavorite ''id-1'' two_notes) = two_notes \<and>
   notes_st (handleToggleFavorite ''id-1'' two_notes) = [standup\<lparr>favorite := True\<rparr>, retro]"
  using toggleFavorite_involution [of "''id-1''" two_notes]
  by (simp add: handleToggleFavorite_def two_notes_def standup_def retro_def)

text \<open>
  C10. For every collection and every id that no note of it has,
  \<^verbatim>\<open>handleToggleFavorite\<close> and the confirmed \<^verbatim>\<open>handleDeleteNote\<close> leave the collection
  as it is, and so does \<^verbatim>\<open>handleSaveNote\<close> when the selected note has that id.
\<close>

theorem missing_id_noop:
  assumes "i \<notin> note_id ` set (notes_st st)"
  shows "notes_st (handleToggleFavorite i st) = notes_st st \<and>
         notes_st (handleDeleteNote True i st) = notes_st st \<and>
         (\<forall>sel. selectedNote st = Some sel \<and> note_id sel = i \<longrightarrow>
            notes_st (handleSaveNote now now' uuid data st) = notes_st st)"
  using assms
  by (auto simp: handleToggleFavorite_def handleDeleteNote_def handleSaveNote_def Let_def
        map_no_match filter_no_match split: option.splits)

theorem missing_id_noop_witness:
  "''id-9'' \<notin> note_id ` set (notes_st stale_selection) \<and>
   notes_st (handleToggleFavorite ''id-9'' stale_selection) = [standup, retro] \<and>
   notes_st (handleDeleteNote True ''id-9'' stale_selection) = [standup, retro] \<and>
   notes_st (handleSaveNote 5 6 ''id-3''
               \<lparr>title = ''Edited'', content = ''New text.'', tags = []\<rparr> stale_selection) =
     [standup, retro]"
proof -
  have h: "''id-9'' \<notin> note_id ` set (notes_st stale_selection)"
    by (simp add: stale_selection_def standup_def retro_def)
  have s: "selectedNote stale_selection = Some (retro\<lparr>note_id := ''id-9''\<rparr>)"
          "notes_st stale_selection = [standup, retro]"
    by (simp_all add: stale_selection_def)
  from h s missing_id_noop [OF h, of 5 6 "''id-3''"
      "\<lparr>title = ''Edited'', content = ''New text.'', tags = []\<rparr>"]
  show ?thesis
    by simp
qed

section \<open>The editor's text handlers\<close>

text \<open>
  C3, as stated, fails: \<^verbatim>\<open>formatContent\<close> appends a period to the rejoined sentences.
  For the content \<^verbatim>\<open>Hello. World\<close> the rejoined text is \<^verbatim>\<open>Hello. World\<close> and the
  handler stores \<^verbatim>\<open>Hello. World.\<close>.
\<close>

theorem formatContent_counterexample:
  "content (formatContent \<lparr>title = ''Standup'', content = ''Hello. World'', tags = []\<rparr>)
     \<noteq> normalized_sentences ''Hello. World'' \<and>
   content (formatContent \<lparr>title = ''Standup'', content = ''Hello. World'', tags = []\<rparr>)
     = ''Hello. World.''"
  by (simp add: formatContent_def normalized_sentences_def trim_def is_ws_def)

text \<open>
  C3, amended. For every draft, \<^verbatim>\<open>formatContent\<close> replaces the content by the string
  obtained by splitting it on periods, trimming each segment, dropping the empty
  segments and rejoining the rest with a period and a space, followed by one more
  period; title and tags stay. So the new content is never empty and always ends with a
  period, and formatting a second time changes nothing.
\<close>

theorem formatContent_appends_period:
  "formatContent fd = fd\<lparr>content := normalized_sentences (content fd) @ ''.''\<rparr> \<and>
   title (formatContent fd) = title fd \<and> tags (formatContent fd) = tags fd \<and>
   content (formatContent fd) \<noteq> [] \<and> last (content (formatContent fd)) = CHR ''.'' \<and>
   formatContent (formatContent fd) = formatContent fd"
proof -
  have "formatContent (formatContent fd) = formatContent fd"
    using normalized_sentences_idem [of "content fd"]
    by (simp add: formatContent_def normalized_sentences_def)
  then show ?thesis
    by (simp add: formatContent_def normalized_sentences_def)
qed

text \<open>
  C9. For every sequence of result segments, \<^verbatim>\<open>onresult\<close> replaces the content of the
  draft, whatever it was, by the segments joined with a space, split on periods, each
  piece trimmed, the empty pieces dropped, of equal sentences only the first kept, in
  order, and rejoined with a period and a space; title and tags stay. The results
  \<^verbatim>\<open>["Hello."]\<close> give \<^verbatim>\<open>Hello\<close>, the results \<^verbatim>\<open>["Hello. World."]\<close> give
  \<^verbatim>\<open>Hello. World\<close>, and so do the results \<^verbatim>\<open>["Hello.", "Hello. World."]\<close>.
\<close>

theorem onresult_replaces_content:
  "onresult results prev = prev\<lparr>content := transcript_text results\<rparr> \<and>
   onresult [''Hello.''] prev = prev\<lparr>content := ''Hello''\<rparr> \<and>
   onresult [''Hello. World.''] prev = prev\<lparr>content := ''Hello. World''\<rparr> \<and>
   onresult [''Hello.'', ''Hello. World.''] prev = prev\<lparr>content := ''Hello. World''\<rparr>"
proof -
  have general: "onresult rs prev = prev\<lparr>content := transcript_text rs\<rparr>" for rs
    by (simp add: onresult_def transcript_text_def filter_indexed_keep_first)
  have "transcript_text [''Hello.''] = ''Hello''"
    by (simp add: transcript_text_def trim_def is_ws_def)
  moreover have "transcript_text [''Hello. World.''] = ''Hello. World''"
    by (simp add: transcript_text_def trim_def is_ws_def)
  moreover have "transcript_text [''Hello.'', ''Hello. World.''] = ''Hello. World''"
    by (simp add: transcript_text_def trim_def is_ws_def)
  ultimately show ?thesis
    by (simp add: general)
qed

section \<open>The list view: sorting\<close>

lemma mset_insert_by: "mset (insert_by cmp x ys) = add_mset x (mset ys)"
  by (induction ys) auto

lemma mset_sort_by: "mset (sort_by cmp xs) = mset xs"
  by (induction xs) (auto simp: sort_by_def mset_insert_by)

text \<open>A consistent comparator compares any two values in one direction at least, and
  \<open>cmp a b \<le> 0\<close> is transitive.\<close>

lemma consistent_flip:
  assumes "consistent_comparator cmp"
  shows "cmp a b < 0 \<Longrightarrow> cmp b a > 0" and "cmp a b > 0 \<Longrightarrow> cmp b a < 0"
proof -
  have refl: "cmp x x = 0" for x
    using assms unfolding consistent_comparator_def by blast
  have sym: "cmp x y = 0 \<Longrightarrow> cmp y x = 0" for x y
    using assms unfolding consistent_comparator_def by blast
  have lt: "cmp x y < 0 \<Longrightarrow> cmp y z < 0 \<Longrightarrow> cmp x z < 0" for x y z
    using assms unfolding consistent_comparator_def by blast
  have gt: "cmp x y > 0 \<Longrightarrow> cmp y z > 0 \<Longrightarrow> cmp x z > 0" for x y z
    using assms unfolding consistent_comparator_def by blast
  show "cmp b a > 0" if ab: "cmp a b < 0"
  proof (rule ccontr)
    assume "\<not> cmp b a > 0"
    then consider "cmp b a < 0" | "cmp b a = 0" by linarith
    then show False
    proof cases
      case 1
      from lt [OF ab 1] refl [of a] show False by simp
    next
      case 2
      from sym [OF 2] ab show False by simp
    qed
  qed
  show "cmp b a < 0" if ab: "cmp a b > 0"
  proof (rule ccontr)
    assume "\<not> cmp b a < 0"
    then consider "cmp b a > 0" | "cmp b a = 0" by linarith
    then show False
    proof cases
      case 1
      from gt [OF ab 1] refl [of a] show False by simp
    next
      case 2
      from sym [OF 2] ab show False by simp
    qed
  qed
qed

lemma consistent_total:
  assumes "consistent_comparator cmp"
  shows "cmp a b \<le> 0 \<or> cmp b a \<le> 0"
  using consistent_flip(2) [OF assms, of a b] by linarith

lemma consistent_le_trans:
  assumes c: "consistent_comparator cmp" and ab: "cmp a b \<le> 0" and bc: "cmp b c \<le> 0"
  shows "cmp a c \<le> 0"
proof (rule ccontr)
  assume "\<not> cmp a c \<le> 0"
  then have ac: "cmp a c > 0" by simp
  then have ca: "cmp c a < 0" by (rule consistent_flip(2) [OF c])
  have sym: "cmp x y = 0 \<Longrightarrow> cmp y x = 0" for x y
    using c unfolding consistent_comparator_def by blast
  have eq: "cmp x y = 0 \<Longrightarrow> cmp y z = 0 \<Longrightarrow> cmp x z = 0" for x y z
    using c unfolding consistent_comparator_def by blast
  have lt: "cmp x y < 0 \<Longrightarrow> cmp y z < 0 \<Longrightarrow> cmp x z < 0" for x y z
    using c unfolding consistent_comparator_def by blast
  from ab bc consider "cmp a b < 0" "cmp b c < 0" | "cmp a b < 0" "cmp b c = 0"
    | "cmp a b = 0" "cmp b c < 0" | "cmp a b = 0" "cmp b c = 0" by linarith
  then show False
  proof cases
    case 1
    from lt [OF 1] ac show False by simp
  next
    case 2
    from lt [OF ca 2(1)] sym [OF 2(2)] show False by simp
  next
    case 3
    from lt [OF 3(2) ca] sym [OF 3(1)] show False by simp
  next
    case 4
    from eq [OF 4] ac show False by simp
  qed
qed

lemma sorted_insert_by:
  assumes "consistent_comparator cmp" "sorted_wrt (\<lambda>a b. cmp a b \<le> 0) ys"
  shows "sorted_wrt (\<lambda>a b. cmp a b \<le> 0) (insert_by cmp x ys)"
  using assms(2)
proof (induction ys)
  case Nil
  then show ?case by simp
next
  case (Cons y ys)
  have tot: "cmp a b \<le> 0 \<or> cmp b a \<le> 0" for a b
    using assms(1) by (rule consistent_total)
  have tr: "cmp a c \<le> 0" if "cmp a b \<le> 0" "cmp b c \<le> 0" for a b c
    using assms(1) that by (rule consistent_le_trans)
  from Cons.prems have y_le: "\<forall>z \<in> set ys. cmp y z \<le> 0"
    and tail: "sorted_wrt (\<lambda>a b. cmp a b \<le> 0) ys"
    by simp_all
  show ?case
  proof (cases "cmp x y > 0")
    case True
    then have "cmp y x \<le> 0"
      using tot [of x y] by linarith
    moreover have "sorted_wrt (\<lambda>a b. cmp a b \<le> 0) (insert_by cmp x ys)"
      using tail by (rule Cons.IH)
    ultimately show ?thesis
      using True y_le by (simp add: set_insert_by)
  next
    case False
    then have xy: "cmp x y \<le> 0"
      by simp
    have "\<forall>z \<in> set ys. cmp x z \<le> 0"
    proof
      fix z
      assume "z \<in> set ys"
      with y_le have "cmp y z \<le> 0" by blast
      with xy show "cmp x z \<le> 0" by (rule tr)
    qed
    with Cons.prems xy False show ?thesis
      by simp
  qed
qed

lemma sorted_sort_by:
  "consistent_comparator cmp \<Longrightarrow> sorted_wrt (\<lambda>a b. cmp a b \<le> 0) (sort_by cmp xs)"
proof (induction xs)
  case Nil
  then show ?case by (simp add: sort_by_def)
next
  case (Cons x xs)
  then have "sorted_wrt (\<lambda>a b. cmp a b \<le> 0) (insert_by cmp x (sort_by cmp xs))"
    by (simp add: sorted_insert_by)
  then show ?case by (simp add: sort_by_def)
qed

text \<open>The sort is stable: values that compare equal keep their order.\<close>

lemma filter_insert_by:
  assumes c: "consistent_comparator cmp"
  shows "filter (\<lambda>y. cmp k y = 0) (insert_by cmp x ys) =
         (if cmp k x = 0 then x # filter (\<lambda>y. cmp k y = 0) ys
          else filter (\<lambda>y. cmp k y = 0) ys)"
proof (induction ys)
  case Nil
  show ?case by simp
next
  case (Cons y ys)
  have sym: "cmp u v = 0 \<Longrightarrow> cmp v u = 0" for u v
    using c unfolding consistent_comparator_def by blast
  have eq: "cmp u v = 0 \<Longrightarrow> cmp v w = 0 \<Longrightarrow> cmp u w = 0" for u v w
    using c unfolding consistent_comparator_def by blast
  show ?case
  proof (cases "cmp x y > 0")
    case True
    have "\<not> (cmp k x = 0 \<and> cmp k y = 0)"
    proof
      assume h: "cmp k x = 0 \<and> cmp k y = 0"
      then have "cmp x k = 0" by (simp add: sym)
      with h have "cmp x y = 0" using eq by blast
      with True show False by simp
    qed
    with True Cons show ?thesis by auto
  next
    case False
    then show ?thesis by simp
  qed
qed

lemma filter_sort_by:
  assumes "consistent_comparator cmp"
  shows "filter (\<lambda>y. cmp k y = 0) (sort_by cmp xs) = filter (\<lambda>y. cmp k y = 0) xs"
proof (induction xs)
  case Nil
  show ?case by (simp add: sort_by_def)
next
  case (Cons x xs)
  have "sort_by cmp (x # xs) = insert_by cmp x (sort_by cmp xs)"
    by (simp add: sort_by_def)
  with Cons show ?case
    by (simp add: filter_insert_by [OF assms])
qed

text \<open>The sample collation is consistent.\<close>

lemma compare_units_flip: "compare_units b a = - compare_units a b"
  by (induction a b rule: compare_units.induct) auto

lemma compare_units_eq: "compare_units a b = 0 \<longleftrightarrow> a = b"
  by (induction a b rule: compare_units.induct) auto

lemma compare_units_trans:
  "compare_units a b \<le> 0 \<Longrightarrow> compare_units b c \<le> 0 \<Longrightarrow> compare_units a c \<le> 0"
proof (induction a b arbitrary: c rule: compare_units.induct)
  case 1
  then show ?case by simp
next
  case (2 y ys)
  then show ?case by (cases c) simp_all
next
  case (3 x xs)
  then show ?case by simp
next
  case (4 x xs y ys)
  show ?case
  proof (cases c)
    case Nil
    with "4.prems" show ?thesis by simp
  next
    case (Cons z zs)
    from "4.prems"(1) have xy: "x < y \<or> (x = y \<and> compare_units xs ys \<le> 0)"
      by (simp split: if_splits)
    from "4.prems"(2) Cons have yz: "y < z \<or> (y = z \<and> compare_units ys zs \<le> 0)"
      by (simp split: if_splits)
    show ?thesis
    proof (cases "x < z")
      case True
      with Cons show ?thesis by simp
    next
      case False
      with xy yz have eq: "x = y" "y = z"
        and le: "compare_units xs ys \<le> 0" "compare_units ys zs \<le> 0"
        by auto
      have "compare_units xs zs \<le> 0"
        using "4.IH" [of zs] eq le by simp
      with eq Cons show ?thesis by simp
    qed
  qed
qed

lemma compare_units_lt_trans:
  assumes "compare_units a b < 0" "compare_units b c < 0"
  shows "compare_units a c < 0"
proof -
  have "compare_units a c \<le> 0"
    using assms compare_units_trans [of a b c] by simp
  moreover have "compare_units a c \<noteq> 0"
  proof
    assume "compare_units a c = 0"
    then have "a = c" by (simp add: compare_units_eq)
    with assms(1) have "compare_units c b < 0" by simp
    with compare_units_flip [of b c] assms(2) show False by simp
  qed
  ultimately show ?thesis by simp
qed

lemma compare_units_consistent: "consistent_comparator (\<lambda>a b. compare_units (f a) (f b))"
  unfolding consistent_comparator_def
proof (intro conjI allI impI)
  fix a show "compare_units (f a) (f a) = 0" by (simp add: compare_units_eq)
next
  fix a b assume "compare_units (f a) (f b) = 0"
  then show "compare_units (f b) (f a) = 0" by (simp add: compare_units_eq)
next
  fix a b c assume "compare_units (f a) (f b) = 0 \<and> compare_units (f b) (f c) = 0"
  then show "compare_units (f a) (f c) = 0" by (simp add: compare_units_eq)
next
  fix a b c assume "compare_units (f a) (f b) < 0 \<and> compare_units (f b) (f c) < 0"
  then show "compare_units (f a) (f c) < 0" using compare_units_lt_trans by blast
next
  fix a b c assume h: "0 < compare_units (f a) (f b) \<and> 0 < compare_units (f b) (f c)"
  then have "compare_units (f c) (f b) < 0" "compare_units (f b) (f a) < 0"
    using compare_units_flip [of "f c" "f b"] compare_units_flip [of "f b" "f a"] by simp_all
  then have "compare_units (f c) (f a) < 0" by (rule compare_units_lt_trans)
  then show "0 < compare_units (f a) (f c)"
    using compare_units_flip [of "f a" "f c"] by simp
qed

lemma caseless_consistent: "consistent_comparator caseless_compare"
  using compare_units_consistent [of "\<lambda>s. map of_char (toLowerCase s)"]
  by (simp add: caseless_compare_def [abs_def])

text \<open>
  C5, as stated, fails: the titles are compared with \<^verbatim>\<open>localeCompare\<close>, the collation
  of the host, not code unit by code unit. On a host whose collation ranks the letters
  before their case, the notes titled Banana, apple, Cherry are displayed as apple,
  Banana, Cherry, which is not the lexicographic order of the strings (there the capital
  B of Banana precedes the small a of apple).
\<close>

theorem sort_title_counterexample:
  "map title (sortedNotes sample_platform SortTitle fruit_notes) =
     [''apple'', ''Banana'', ''Cherry''] \<and>
   \<not> sorted_wrt code_unit_le (map title (sortedNotes sample_platform SortTitle fruit_notes))"
  by code_simp

text \<open>
  C5, amended. On every host whose \<^verbatim>\<open>localeCompare\<close> is a consistent comparator,
  sorting with the sort key \<^verbatim>\<open>title\<close> rearranges the notes (none lost, none added)
  into ascending order of their titles under \<^verbatim>\<open>localeCompare\<close>: each title compares
  less than or equal to every later one, and the notes whose titles compare equal to a
  given title \<open>t\<close> keep their order.
\<close>

theorem sort_title_by_localeCompare:
  assumes "consistent_comparator (localeCompare pf)"
  shows "sorted_wrt (\<lambda>a b. localeCompare pf a b \<le> 0)
           (map title (sortedNotes pf SortTitle ns)) \<and>
         mset (sortedNotes pf SortTitle ns) = mset ns \<and>
         filter (\<lambda>n. localeCompare pf t (title n) = 0) (sortedNotes pf SortTitle ns) =
           filter (\<lambda>n. localeCompare pf t (title n) = 0) ns"
proof -
  have c: "consistent_comparator (\<lambda>a b. localeCompare pf (title a) (title b))"
    using assms unfolding consistent_comparator_def by blast
  have cmp: "compareNotes pf SortTitle = (\<lambda>a b. localeCompare pf (title a) (title b))"
    by (intro ext) (simp add: compareNotes_def)
  obtain k :: Note where k: "title k = t"
    by (rule that [of "\<lparr>title = t, content = [], tags = [], note_id = [],
          createdAt = DateObj 0, updatedAt = DateObj 0, favorite = False\<rparr>"]) simp
  have "filter (\<lambda>n. localeCompare pf (title k) (title n) = 0)
          (sort_by (\<lambda>a b. localeCompare pf (title a) (title b)) ns) =
        filter (\<lambda>n. localeCompare pf (title k) (title n) = 0) ns"
    using filter_sort_by [OF c, of k ns] .
  with sorted_sort_by [OF c, of ns] cmp k show ?thesis
    by (simp add: sortedNotes_def mset_sort_by sorted_wrt_map)
qed

theorem sort_title_by_localeCompare_witness:
  "consistent_comparator (localeCompare sample_platform) \<and>
   sorted_wrt (\<lambda>a b. localeCompare sample_platform a b \<le> 0)
     (map title (sortedNotes sample_platform SortTitle fruit_notes)) \<and>
   mset (sortedNotes sample_platform SortTitle fruit_notes) = mset fruit_notes"
proof -
  have h: "consistent_comparator (localeCompare sample_platform)"
    by (simp add: sample_platform_def caseless_consistent)
  from h sort_title_by_localeCompare [OF h, of fruit_notes] show ?thesis
    by simp
qed

section \<open>The list view: filter and export\<close>

text \<open>
  C8, as stated, fails in both parts. The note \<open>standup\<close> carries the tag \<^verbatim>\<open>work\<close>,
  and with \<^verbatim>\<open>work\<close> selected and the search term \<^verbatim>\<open>budget\<close> it is not on display: the
  search term must match as well. And the empty string, a tag of no note, selects
  nothing out: \<^verbatim>\<open>!selectedTag\<close> holds for it as for \<^verbatim>\<open>null\<close>.
\<close>

theorem visibleNotes_tag_counterexample:
  "standup \<in> set (notes_st two_notes) \<and> ''work'' \<in> set (tags standup) \<and>
   standup \<notin> set (visibleNotes sample_platform ''budget'' (Some ''work'') SortDate
                     (notes_st two_notes)) \<and>
   list_all (\<lambda>n. '''' \<notin> set (tags n)) (notes_st two_notes) \<and>
   visibleNotes sample_platform '''' (Some '''') SortDate (notes_st two_notes) \<noteq> []"
  by (simp add: visibleNotes_def sortedNotes_def set_sort_by filteredNotes_def two_notes_def
        standup_def retro_def toLowerCase_def toLowerCase_char_def sort_by_def)

text \<open>
  C8, amended. Selecting a non-empty tag that no note carries yields an empty visible
  sequence. A note \<open>x\<close> of the collection that carries the selected tag is on display
  exactly when the search term, lower-cased, occurs in its lower-cased title, content or
  one of its tags; so it is on display whenever the search term is empty.
\<close>

theorem visibleNotes_tag_filter:
  "(t \<noteq> [] \<and> (\<forall>n \<in> set ns. t \<notin> set (tags n)) \<longrightarrow>
      visibleNotes pf s (Some t) sortBy ns = []) \<and>
   (x \<in> set ns \<and> t \<in> set (tags x) \<longrightarrow>
      (x \<in> set (visibleNotes pf s (Some t) sortBy ns) \<longleftrightarrow>
         includes_str (toLowerCase (title x)) (toLowerCase s) \<or>
         includes_str (toLowerCase (content x)) (toLowerCase s) \<or>
         list_ex (\<lambda>tag. includes_str (toLowerCase tag) (toLowerCase s)) (tags x))) \<and>
   (x \<in> set ns \<and> t \<in> set (tags x) \<longrightarrow>
      x \<in> set (visibleNotes pf [] (Some t) sortBy ns))"
proof -
  have a: "visibleNotes pf s (Some t) sortBy ns = []"
    if "t \<noteq> []" "\<forall>n \<in> set ns. t \<notin> set (tags n)"
  proof -
    have "filteredNotes s (Some t) ns = []"
      using that by (auto simp: filteredNotes_def filter_empty_conv)
    then show ?thesis
      by (simp add: visibleNotes_def sortedNotes_def sort_by_def)
  qed
  have b: "x \<in> set (visibleNotes pf s' (Some t) sortBy ns) \<longleftrightarrow>
         includes_str (toLowerCase (title x)) (toLowerCase s') \<or>
         includes_str (toLowerCase (content x)) (toLowerCase s') \<or>
         list_ex (\<lambda>tag. includes_str (toLowerCase tag) (toLowerCase s')) (tags x)"
    if "x \<in> set ns" "t \<in> set (tags x)" for s'
    using that by (simp add: visibleNotes_def sortedNotes_def set_sort_by filteredNotes_def)
  have c: "x \<in> set (visibleNotes pf [] (Some t) sortBy ns)"
    if "x \<in> set ns" "t \<in> set (tags x)"
    using b [OF that, of "[]"] by (simp add: toLowerCase_def includes_str_Nil)
  from a b c show ?thesis
    by blast
qed

theorem visibleNotes_tag_filter_witness:
  "visibleNotes sample_platform ''ship'' (Some ''design'') SortFavorite (notes_st two_notes) = [] \<and>
   standup \<in> set (visibleNotes sample_platform ''SHIP'' (Some ''work'') SortFavorite
                     (notes_st two_notes)) \<and>
   standup \<in> set (visibleNotes sample_platform [] (Some ''work'') SortFavorite
                     (notes_st two_notes))"
proof -
  have h1: "''design'' \<noteq> [] \<and> (\<forall>n \<in> set (notes_st two_notes). ''design'' \<notin> set (tags n))"
    by (simp add: two_notes_def standup_def retro_def)
  have h2: "standup \<in> set (notes_st two_notes) \<and> ''work'' \<in> set (tags standup)"
    by (simp add: two_notes_def standup_def)
  have h3: "includes_str (toLowerCase (content standup)) (toLowerCase ''SHIP'')"
    by code_simp
  from h1 h2 h3
    visibleNotes_tag_filter [of "''design''" "notes_st two_notes" sample_platform "''ship''"
      SortFavorite standup]
    visibleNotes_tag_filter [of "''work''" "notes_st two_notes" sample_platform "''SHIP''"
      SortFavorite standup]
  show ?thesis
    by blast
qed

text \<open>The date part of \<^verbatim>\<open>toISOString\<close>: no digit and no sign is the letter T, so the
  text before the first T is the date.\<close>

lemma digit_char_not_T: "char_of (48 + n mod 10 :: nat) \<noteq> CHR ''T''"
proof
  assume "char_of (48 + n mod 10 :: nat) = CHR ''T''"
  then have "(of_char (char_of (48 + n mod 10 :: nat)) :: nat) = of_char CHR ''T''"
    by simp
  then have "(48 + n mod 10) mod 256 = (84 :: nat)"
    by simp
  moreover have "n mod 10 < 10"
    by simp
  ultimately show False
    by simp
qed

lemma digits_no_T: "CHR ''T'' \<notin> set (digits k n)"
proof (induction k arbitrary: n)
  case 0
  show ?case by simp
next
  case (Suc k)
  from Suc [of "n div 10"] digit_char_not_T [of n] show ?case
    by auto
qed

lemma year_string_no_T: "CHR ''T'' \<notin> set (year_string y)"
  by (simp add: year_string_def digits_no_T)

lemma toISOString_date: "takeWhile (\<lambda>c. c \<noteq> CHR ''T'') (toISOString t) = iso_date t"
proof -
  obtain y m d where c: "civil_from_days (t div 86400000) = (y, m, d)"
    by (cases "civil_from_days (t div 86400000)") auto
  let ?date = "year_string y @ ''-'' @ digits 2 (nat m) @ ''-'' @ digits 2 (nat d)"
  have no_T: "\<forall>c \<in> set ?date. c \<noteq> CHR ''T''"
    using year_string_no_T [of y] digits_no_T [of 2 "nat m"] digits_no_T [of 2 "nat d"]
    by auto
  have "takeWhile (\<lambda>c. c \<noteq> CHR ''T'') (?date @ CHR ''T'' # rest) = ?date" for rest
  proof -
    have "takeWhile (\<lambda>c. c \<noteq> CHR ''T'') (?date @ CHR ''T'' # rest) =
          ?date @ takeWhile (\<lambda>c. c \<noteq> CHR ''T'') (CHR ''T'' # rest)"
      by (rule takeWhile_append2) (use no_T in blast)
    then show ?thesis by simp
  qed
  then show ?thesis
    by (simp add: toISOString_def iso_date_def c Let_def)
qed

text \<open>
  C4, as stated, fails: every block, the last one too, ends with the rule. The export of
  the single note \<open>standup\<close> is not its \<^verbatim>\<open>exportNote\<close> block, whatever the separating
  line is.
\<close>

theorem exportAll_counterexample:
  "\<not> (\<exists>rule. fst (exportAllNotes sample_platform 0 [standup]) =
               separated_export sample_platform rule [standup])"
  by (simp add: exportAllNotes_def separated_export_def exportNote_def)

text \<open>
  C4, amended. For every sequence of notes on display, the payload of
  \<^verbatim>\<open>exportAllNotes\<close> is, for each note, the Markdown block of \<^verbatim>\<open>exportNote\<close> followed by
  an empty line, the rule \<^verbatim>\<open>---\<close> and an empty line (a terminator: the last block has
  it too), these terminated blocks joined with a line feed; the file is named
  \<^verbatim>\<open>meeting_notes_<ISO date>.md\<close>.
\<close>

theorem exportAll_terminated_blocks:
  "fst (exportAllNotes pf now ns) =
     join [nl] (map (\<lambda>n. fst (exportNote pf n) @ [nl, nl] @ ''---'' @ [nl, nl]) ns) \<and>
   fst (exportAllNotes pf now [n]) = fst (exportNote pf n) @ [nl, nl] @ ''---'' @ [nl, nl] \<and>
   snd (exportAllNotes pf now ns) = ''meeting_notes_'' @ iso_date now @ ''.md''"
proof -
  have "(case split_on CHR ''T'' (toISOString now) of [] \<Rightarrow> ''undefined'' | date # _ \<Rightarrow> date) =
        takeWhile (\<lambda>c. c \<noteq> CHR ''T'') (toISOString now)"
    by (subst split_on_first) simp
  then show ?thesis
    by (simp add: exportAllNotes_def exportNote_def Let_def toISOString_date)
qed

section \<open>Persistence\<close>

lemma toISOString_epoch: "toISOString 0 = ''1970-01-01T00:00:00.000Z''"
  by code_simp

lemma toISOString_minute: "toISOString 60000 = ''1970-01-01T00:01:00.000Z''"
  by code_simp

text \<open>
  C6, as stated, fails: the initializer of \<^verbatim>\<open>notes\<close> returns what \<^verbatim>\<open>JSON.parse\<close>
  returns, and the timestamps of a loaded note are the strings of the slot, not date
  values. The note \<open>standup\<close>, created at time 0, comes back with the string
  \<^verbatim>\<open>1970-01-01T00:00:00.000Z\<close> as its \<^verbatim>\<open>createdAt\<close>.
\<close>

theorem load_counterexample:
  "load_notes (persist [standup]) \<noteq> [standup] \<and>
   map createdAt (load_notes (persist [standup])) = [DateStr ''1970-01-01T00:00:00.000Z''] \<and>
   map updatedAt (load_notes (persist [standup])) = [DateStr ''1970-01-01T00:01:00.000Z'']"
  by (simp add: load_notes_def persist_def JSON_parse_def JSON_stringify_def standup_def
        toJSON_def toISOString_epoch toISOString_minute)

text \<open>
  C6, amended. For every collection, loading what was persisted yields the same notes
  in the same order with \<^verbatim>\<open>createdAt\<close> and \<^verbatim>\<open>updatedAt\<close> held as the serialized date
  strings of the saved timestamps (the load parses no date) and every other field as
  saved; persisting the loaded collection writes the same slot again, so load after
  persist is idempotent. The absent slot loads as the empty collection.
\<close>

theorem load_yields_strings:
  "load_notes (persist ns) =
     map (\<lambda>n. n\<lparr>createdAt := DateStr (toJSON (createdAt n)),
                updatedAt := DateStr (toJSON (updatedAt n))\<rparr>) ns \<and>
   persist (load_notes (persist ns)) = persist ns \<and>
   load_notes (persist (load_notes (persist ns))) = load_notes (persist ns) \<and>
   load_notes None = []"
  by (simp add: load_notes_def persist_def JSON_parse_def JSON_stringify_def toJSON_def comp_def)

end
